theory Spec2Isabelle
  imports Main
begin

section \<open>The print-to-Logger rewriter of replace\_prints.py\<close>

text \<open>
  The script walks a directory tree, collects the files whose name ends in \<^verbatim>\<open>.swift\<close>,
  runs three regular-expression substitutions over the text of each, and writes a file back
  when its text changed.  The development below embeds the script function by function:
  the regular expressions and \<^verbatim>\<open>re.sub\<close>, the file system with \<^verbatim>\<open>os.walk\<close>, the
  three functions \<^verbatim>\<open>find_swift_files\<close>, \<^verbatim>\<open>replace_print_statements\<close> and \<^verbatim>\<open>main\<close>.

  A character of the model is a code point below 256 of a Python \<^verbatim>\<open>str\<close>; a text is a
  \<^typ>\<open>string\<close>.
\<close>

subsection \<open>Regular expressions\<close>

text \<open>
  The three patterns of the script are sequences of literal characters and of character
  classes under a greedy quantifier, where every capture group encloses exactly one
  quantified class.  An \<open>item\<close> is one such element: \<open>One c\<close> matches one character of the
  class \<open>c\<close>; \<open>Many c lo cap\<close> matches at least \<open>lo\<close> characters of \<open>c\<close>, as many as
  possible (\<open>lo = 1\<close> for \<^verbatim>\<open>+\<close>, \<open>lo = 0\<close> for \<^verbatim>\<open>*\<close>), and is a capture group when
  \<open>cap\<close> holds.  The classes are a literal character, a negated one-character set such as
  \<^verbatim>\<open>[^"]\<close>, and \<^verbatim>\<open>\s\<close>.
\<close>

datatype cls = Lit char | Not char | Space

datatype item = One cls | Many cls nat bool

text \<open>
  \<^verbatim>\<open>\s\<close> in a \<^verbatim>\<open>str\<close> pattern is Unicode white space; below code point 256 these are
  the characters 9 to 13, 28 to 32, 133 and 160.
\<close>

fun is_space :: "char \<Rightarrow> bool" where
  "is_space c = (of_char c \<in> set [9, 10, 11, 12, 13, 28, 29, 30, 31, 32, 133, 160 :: nat])"

fun accepts :: "cls \<Rightarrow> char \<Rightarrow> bool" where
  "accepts (Lit a) c = (c = a)"
| "accepts (Not a) c = (c \<noteq> a)"
| "accepts Space c = is_space c"

type_synonym groups = "string list"

text \<open>
  \<open>re_match p s\<close> matches the pattern \<open>p\<close> at the start of \<open>s\<close> the way the backtracking
  matcher of \<^verbatim>\<open>re\<close> does: a quantified class first takes the longest run of
  characters it accepts and gives them back one at a time while the rest of the pattern
  fails.  The result holds the texts of the capture groups, in the order of their opening
  parentheses, and the text after the match.
\<close>

fun re_match :: "item list \<Rightarrow> string \<Rightarrow> (groups \<times> string) option"
and backtrack :: "cls \<Rightarrow> nat \<Rightarrow> bool \<Rightarrow> item list \<Rightarrow> string \<Rightarrow> nat \<Rightarrow> (groups \<times> string) option"
where
  "re_match [] s = Some ([], s)"
| "re_match (One a # r) [] = None"
| "re_match (One a # r) (c # cs) = (if accepts a c then re_match r cs else None)"
| "re_match (Many a lo cap # r) s = backtrack a lo cap r s (length (takeWhile (accepts a) s))"
| "backtrack a lo cap r s k =
     (if k < lo then None
      else case re_match r (drop k s) of
             Some (gs, rest) \<Rightarrow> Some (if cap then take k s # gs else gs, rest)
           | None \<Rightarrow> (case k of 0 \<Rightarrow> None | Suc j \<Rightarrow> backtrack a lo cap r s j))"

declare backtrack.simps [simp del]

text \<open>
  A replacement template is a sequence of literal text and group references
  (\<^verbatim>\<open>\1\<close>, \<^verbatim>\<open>\2\<close>).  \<^verbatim>\<open>re\<close> rejects a template that refers to a group the pattern
  does not have when it compiles the template; the three templates of the script refer to
  groups that exist (lemma \<open>templates_refer_to_groups\<close>), and \<open>expand\<close> yields the empty
  text for any other reference.
\<close>

datatype part = Text string | Group nat

fun expand :: "part list \<Rightarrow> groups \<Rightarrow> string" where
  "expand [] gs = []"
| "expand (Text t # ps) gs = t @ expand ps gs"
| "expand (Group n # ps) gs =
     (if 0 < n \<and> n \<le> length gs then gs ! (n - 1) else []) @ expand ps gs"

text \<open>
  \<^verbatim>\<open>re.sub(pattern, repl, string)\<close>: scanning from the left, every non-overlapping match
  is replaced by the expanded template and the scan goes on after the match; a character
  at which nothing matches is copied.  An empty match (Python 3.7 and later) is replaced
  too, after which the next character is copied.  The patterns of the script begin with
  literal characters and never match the empty text.
\<close>

fun re_sub :: "item list \<Rightarrow> part list \<Rightarrow> string \<Rightarrow> string" where
  "re_sub p repl s =
     (case re_match p s of
        Some (gs, rest) \<Rightarrow>
          if length rest < length s then expand repl gs @ re_sub p repl rest
          else expand repl gs @ (case s of [] \<Rightarrow> [] | c # cs \<Rightarrow> c # re_sub p repl cs)
      | None \<Rightarrow> (case s of [] \<Rightarrow> [] | c # cs \<Rightarrow> c # re_sub p repl cs))"

declare re_sub.simps [simp del]

definition lit :: "string \<Rightarrow> item list" where
  "lit t = map (\<lambda>c. One (Lit c)) t"

subsection \<open>The three rules\<close>

type_synonym rule = "item list \<times> part list"

text \<open>
  \<^verbatim>\<open>(r'print\("\[([^\]]+)\]\s*([^"]+)"\)', r'Logger.shared.log("\2", category: .\1, level: .info)')\<close>
\<close>

definition bracketed_rule :: rule where
  \<open>bracketed_rule =
     (lit ''print("['' @ [Many (Not CHR '']'') 1 True] @ lit '']'' @ [Many Space 0 False]
        @ [Many (Not CHR 0x22) 1 True] @ lit ''")'',
      [Text ''Logger.shared.log("'', Group 2, Text ''", category: .'', Group 1,
       Text '', level: .info)''])\<close>

text \<open>
  \<^verbatim>\<open>(r'print\("([^"]+)"\)', r'Logger.shared.log("\1", category: .general, level: .info)')\<close>
\<close>

definition plain_rule :: rule where
  \<open>plain_rule =
     (lit ''print("'' @ [Many (Not CHR 0x22) 1 True] @ lit ''")'',
      [Text ''Logger.shared.log("'', Group 1, Text ''", category: .general, level: .info)''])\<close>

text \<open>
  \<^verbatim>\<open>(r'print\("([^"]+)",\s*([^)]+)\)', r'Logger.shared.log("\1: \2", category: .general, level: .info)')\<close>
\<close>

definition argument_rule :: rule where
  \<open>argument_rule =
     (lit ''print("'' @ [Many (Not CHR 0x22) 1 True] @ lit ''",'' @ [Many Space 0 False]
        @ [Many (Not CHR '')'') 1 True] @ lit '')'',
      [Text ''Logger.shared.log("'', Group 1, Text '': '', Group 2,
       Text ''", category: .general, level: .info)''])\<close>

definition patterns :: "rule list" where
  "patterns = [bracketed_rule, plain_rule, argument_rule]"

text \<open>
  The loop \<^verbatim>\<open>for pattern, replacement in patterns: content = re.sub(pattern, replacement, content)\<close>.
\<close>

definition rewrite :: "string \<Rightarrow> string" where
  "rewrite content =
     foldl (\<lambda>content (pattern, replacement). re_sub pattern replacement content) content patterns"

text \<open>
  The specification's wording of the same pass: each rule is one substitution over the whole
  content, the second applied to the output of the first and the third to the output of
  the second.
\<close>

definition apply_rule :: "rule \<Rightarrow> string \<Rightarrow> string" where
  "apply_rule r content = re_sub (fst r) (snd r) content"

definition rules_in_listed_order :: "string \<Rightarrow> string" where
  "rules_in_listed_order content =
     apply_rule argument_rule (apply_rule plain_rule (apply_rule bracketed_rule content))"


fun matches_in :: "item list \<Rightarrow> string \<Rightarrow> bool" where
  "matches_in p [] = (re_match p [] \<noteq> None)"
| "matches_in p (c # cs) = (re_match p (c # cs) \<noteq> None \<or> matches_in p cs)"

section \<open>The file system and the three functions of the script\<close>

subsection \<open>Directory trees\<close>

text \<open>
  A directory entry is a file with its text or a directory with its named entries, in the
  order in which the directory is scanned.  A path is the list of names that leads from the
  outermost directory of the model to an entry; that outermost directory holds, under the
  text of a command-line argument, whatever the argument denotes.  \<^verbatim>\<open>os.path.join(root, name)\<close>
  appends one name to a path.  Symbolic links, permissions and read or write failures of the
  device are not part of the model: every directory can be scanned, every file holds text
  that decodes as UTF-8, can be read and can be overwritten.
\<close>

datatype node = File string | Dir "(string \<times> node) list"

type_synonym path = "string list"

fun is_dir :: "node \<Rightarrow> bool" where
  "is_dir (Dir es) = True"
| "is_dir (File c) = False"

fun lookup :: "node \<Rightarrow> path \<Rightarrow> node option" where
  "lookup n [] = Some n"
| "lookup (File c) (x # xs) = None"
| "lookup (Dir es) (x # xs) = (case map_of es x of None \<Rightarrow> None | Some n \<Rightarrow> lookup n xs)"

text \<open>
  \<open>store n p c\<close> replaces the text of the file at \<open>p\<close> by \<open>c\<close>.  The script opens a path
  for writing only after it has read the file at that path, so \<open>store\<close> is only ever applied
  where \<open>p\<close> leads to a file; elsewhere it leaves the tree as it is.
\<close>

fun store :: "node \<Rightarrow> path \<Rightarrow> string \<Rightarrow> node" where
  "store (File old) [] c = File c"
| "store (Dir es) [] c = Dir es"
| "store (File old) (x # xs) c = File old"
| "store (Dir es) (x # xs) c =
     Dir (map (\<lambda>(name, n). if name = x then (name, store n xs c) else (name, n)) es)"


text \<open>
  \<^verbatim>\<open>os.walk(root)\<close>, top-down and without following links: for a directory it yields the
  triple of the directory's path, the names of its sub-directories and the names of its
  other entries, and then walks each sub-directory in turn.  An error of the directory scan
  is ignored (\<^verbatim>\<open>onerror=None\<close>), so that walking a path that is a file yields nothing.
\<close>

fun os_walk :: "path \<Rightarrow> node \<Rightarrow> (path \<times> string list \<times> string list) list" where
  "os_walk root (File c) = []"
| "os_walk root (Dir es) =
     (root, map fst (filter (\<lambda>(name, n). is_dir n) es),
            map fst (filter (\<lambda>(name, n). \<not> is_dir n) es))
     # concat (map (\<lambda>(name, n). os_walk (root @ [name]) n) (filter (\<lambda>(name, n). is_dir n) es))"

text \<open>
  The specification's wording of "a file under the root": \<open>file_below n rel\<close> holds when
  the names \<open>rel\<close> lead from the directory \<open>n\<close> through sub-directories, at any depth, to an
  entry that is not a directory.
\<close>

fun file_below :: "node \<Rightarrow> path \<Rightarrow> bool" where
  "file_below n [] = False"
| "file_below (File c) (x # xs) = False"
| "file_below (Dir es) [x] = (\<exists>e \<in> set es. fst e = x \<and> \<not> is_dir (snd e))"
| "file_below (Dir es) (x # y # ys) =
     (\<exists>e \<in> set es. fst e = x \<and> is_dir (snd e) \<and> file_below (snd e) (y # ys))"

subsection \<open>State, errors and input/output\<close>

text \<open>
  The state of a run: the directory tree, the files opened so far (for reading, or for
  writing with the text written), and the lines printed to standard output.  An exception
  that leaves a function is the \<open>Inl\<close> of its result: \<^verbatim>\<open>sys.exit(n)\<close> raises
  \<open>SystemExit n\<close>, and opening a path that is no file raises an \<open>OSError\<close>
  (\<^verbatim>\<open>FileNotFoundError\<close>, \<^verbatim>\<open>NotADirectoryError\<close> or \<^verbatim>\<open>IsADirectoryError\<close>).
\<close>

datatype error = SystemExit nat | OSError path

datatype event = Opened_for_reading path | Opened_for_writing path string

record state =
  disk :: node
  trace :: "event list"
  stdout :: "string list"

definition py_print :: "string \<Rightarrow> state \<Rightarrow> state" where
  "py_print line s = s\<lparr>stdout := stdout s @ [line]\<rparr>"

definition os_path_exists :: "state \<Rightarrow> path \<Rightarrow> bool" where
  "os_path_exists s p = (lookup (disk s) p \<noteq> None)"

text \<open>
  A file opened in text mode with the default \<^verbatim>\<open>newline=None\<close> is read with universal
  newlines: a carriage return followed by a line feed, and a lone carriage return, both
  arrive as one line feed.  On writing, a line feed is written as the line separator of the
  platform, a line feed on the POSIX systems modelled here.
\<close>

fun universal_newlines :: "string \<Rightarrow> string" where
  "universal_newlines [] = []"
| "universal_newlines [c] = (if c = CHR 0x0D then [CHR 0x0A] else [c])"
| "universal_newlines (c # d # cs) =
     (if c = CHR 0x0D \<and> d = CHR 0x0A then CHR 0x0A # universal_newlines cs
      else if c = CHR 0x0D then CHR 0x0A # universal_newlines (d # cs)
      else c # universal_newlines (d # cs))"

text \<open>\<^verbatim>\<open>with open(file_path, 'r', encoding='utf-8') as f: content = f.read()\<close>\<close>

definition read_text :: "path \<Rightarrow> state \<Rightarrow> (error + string) \<times> state" where
  "read_text file_path s =
     (case lookup (disk s) file_path of
        Some (File raw) \<Rightarrow>
          (Inr (universal_newlines raw), s\<lparr>trace := trace s @ [Opened_for_reading file_path]\<rparr>)
      | Some (Dir es) \<Rightarrow> (Inl (OSError file_path), s)
      | None \<Rightarrow> (Inl (OSError file_path), s))"

text \<open>\<^verbatim>\<open>with open(file_path, 'w', encoding='utf-8') as f: f.write(content)\<close>\<close>

definition write_text :: "path \<Rightarrow> string \<Rightarrow> state \<Rightarrow> state" where
  "write_text file_path content s =
     s\<lparr>disk := store (disk s) file_path content,
       trace := trace s @ [Opened_for_writing file_path content]\<rparr>"

subsection \<open>find\_swift\_files\<close>

text \<open>\<^verbatim>\<open>file.endswith('.swift')\<close>\<close>

definition endswith :: "string \<Rightarrow> string \<Rightarrow> bool" where
  "endswith name suffix =
     (length suffix \<le> length name \<and> drop (length name - length suffix) name = suffix)"

definition find_swift_files :: "state \<Rightarrow> path \<Rightarrow> path list" where
  "find_swift_files s directory =
     (case lookup (disk s) directory of
        None \<Rightarrow> []
      | Some n \<Rightarrow>
          concat (map (\<lambda>(root, dirs, files).
                         map (\<lambda>file. root @ [file])
                           (filter (\<lambda>file. endswith file ''.swift'') files))
                      (os_walk directory n)))"

text \<open>
  The specification's wording of the scanner's result: the files under the root.
\<close>

definition files_under :: "state \<Rightarrow> path \<Rightarrow> path set" where
  "files_under s directory =
     (case lookup (disk s) directory of
        None \<Rightarrow> {}
      | Some n \<Rightarrow> {directory @ rel | rel. file_below n rel})"

subsection \<open>replace\_print\_statements\<close>

definition replace_print_statements :: "path \<Rightarrow> state \<Rightarrow> (error + bool) \<times> state" where
  "replace_print_statements file_path s =
     (case read_text file_path s of
        (Inl e, s1) \<Rightarrow> (Inl e, s1)
      | (Inr original_content, s1) \<Rightarrow>
          let content = rewrite original_content in
          if content \<noteq> original_content
          then (Inr True, write_text file_path content s1)
          else (Inr False, s1))"

subsection \<open>main\<close>

text \<open>\<^verbatim>\<open>str(n)\<close> for a length: the decimal digits.\<close>

fun str :: "nat \<Rightarrow> string" where
  "str n = (if n < 10 then [char_of (48 + n)] else str (n div 10) @ [char_of (48 + n mod 10)])"

declare str.simps [simp del]

text \<open>
  The text of a path as it is printed: \<^verbatim>\<open>os.path.join\<close> puts a slash between the parts
  unless the left part is empty or ends in one; a right part that begins with a slash
  replaces what is to its left.
\<close>

definition os_path_join :: "string \<Rightarrow> string \<Rightarrow> string" where
  "os_path_join a b =
     (if take 1 b = ''/'' then b
      else if a = [] \<or> last a = CHR ''/'' then a @ b
      else a @ ''/'' @ b)"

fun path_text :: "path \<Rightarrow> string" where
  "path_text [] = []"
| "path_text (a # names) = foldl os_path_join a names"

text \<open>
  The loop of \<^verbatim>\<open>main\<close> over the files found; it stops at the first exception.
\<close>

fun main_loop :: "path list \<Rightarrow> path list \<Rightarrow> state \<Rightarrow> (error + path list) \<times> state" where
  "main_loop [] modified_files s = (Inr modified_files, s)"
| "main_loop (file_path # swift_files) modified_files s =
     (case replace_print_statements file_path s of
        (Inl e, s1) \<Rightarrow> (Inl e, s1)
      | (Inr True, s1) \<Rightarrow>
          main_loop swift_files (modified_files @ [file_path])
            (py_print (''Modified: '' @ path_text file_path) s1)
      | (Inr False, s1) \<Rightarrow> main_loop swift_files modified_files s1)"

definition main :: "string list \<Rightarrow> state \<Rightarrow> (error + unit) \<times> state" where
  "main argv s =
     (if length argv \<noteq> 2
      then (Inl (SystemExit 1), py_print ''Usage: python replace_prints.py <directory>'' s)
      else
        let directory = argv ! 1 in
        if \<not> os_path_exists s [directory]
        then (Inl (SystemExit 1),
              py_print (''Directory '' @ directory @ '' does not exist'') s)
        else
          let swift_files = find_swift_files s [directory];
              s1 = py_print (''Found '' @ str (length swift_files) @ '' Swift files'') s
          in case main_loop swift_files [] s1 of
               (Inl e, s2) \<Rightarrow> (Inl e, s2)
             | (Inr modified_files, s2) \<Rightarrow>
                 (Inr (),
                  py_print ''Note: You may need to manually review and adjust Logger categories''
                    (py_print (CHR 0x0A # ''Modified '' @ str (length modified_files) @ '' files'')
                       s2)))"

text \<open>
  The exit status of the process: 0 when \<^verbatim>\<open>main\<close> returns, the argument of
  \<^verbatim>\<open>sys.exit\<close>, and 1 for any other exception that nothing catches.
\<close>

fun exit_status :: "error + unit \<Rightarrow> nat" where
  "exit_status (Inr u) = 0"
| "exit_status (Inl (SystemExit n)) = n"
| "exit_status (Inl (OSError p)) = 1"

subsection \<open>An example tree\<close>

text \<open>A small project and a state that holds it, used to run the functions on.\<close>

definition example_project :: node where
  \<open>example_project =
     Dir [(''a.swift'', File ''print("Hello world")''),
          (''notes.txt'', File ''print("x")''),
          (''sub'', Dir [(''b.swift'', File ''let x = 1''),
                         (''c.swift'', File ''print("[UI] tap")'')])]\<close>

definition example_state :: state where
  \<open>example_state =
     \<lparr>disk = Dir [(''proj'', example_project),
                 (''empty'', Dir [(''readme.md'', File ''print("x")'')]),
                 (''f.swift'', File ''print("q")'')],
      trace = [], stdout = []\<rparr>\<close>

section \<open>Properties of the matcher and of the substitution\<close>

lemma re_match_One:
  "re_match (One a # r) s = Some res \<longleftrightarrow> (\<exists>c cs. s = c # cs \<and> accepts a c \<and> re_match r cs = Some res)"
  by (cases s) auto

lemma re_match_lit:
  "re_match (lit t @ r) s = Some res \<longleftrightarrow> (\<exists>cs. s = t @ cs \<and> re_match r cs = Some res)"
proof (induction t arbitrary: s)
  case Nil
  show ?case by (simp add: lit_def)
next
  case (Cons a t)
  have "re_match (lit (a # t) @ r) s = Some res
        \<longleftrightarrow> (\<exists>c cs. s = c # cs \<and> c = a \<and> re_match (lit t @ r) cs = Some res)"
    using re_match_One [of "Lit a" "lit t @ r" s res] by (simp add: lit_def)
  also have "\<dots> \<longleftrightarrow> (\<exists>cs. s = (a # t) @ cs \<and> re_match r cs = Some res)"
    using Cons.IH by auto
  finally show ?case .
qed

lemma backtrack_Some:
  "backtrack a lo cap r s k = Some (gs, rest) \<Longrightarrow>
   \<exists>j gs'. j \<le> k \<and> lo \<le> j \<and> re_match r (drop j s) = Some (gs', rest)
      \<and> gs = (if cap then take j s # gs' else gs')"
proof (induction k)
  case 0
  then show ?case
    by (subst (asm) backtrack.simps) (auto split: if_splits option.splits)
next
  case (Suc k)
  show ?case
  proof (cases "re_match r (drop (Suc k) s)")
    case None
    with Suc.prems have "backtrack a lo cap r s k = Some (gs, rest)"
      by (subst (asm) backtrack.simps) (auto split: if_splits)
    from Suc.IH [OF this] obtain j gs' where
      "j \<le> k" "lo \<le> j" "re_match r (drop j s) = Some (gs', rest)"
      "gs = (if cap then take j s # gs' else gs')" by blast
    then have "j \<le> Suc k \<and> lo \<le> j \<and> re_match r (drop j s) = Some (gs', rest)
      \<and> gs = (if cap then take j s # gs' else gs')" by simp
    then show ?thesis by blast
  next
    case (Some res)
    with Suc.prems show ?thesis
      by (subst (asm) backtrack.simps) (auto split: if_splits prod.splits)
  qed
qed

lemma take_takeWhile_accepted:
  "j \<le> length (takeWhile P s) \<Longrightarrow> \<forall>c \<in> set (take j s). P c"
proof -
  assume j: "j \<le> length (takeWhile P s)"
  have "take j s = take j (takeWhile P s)"
    by (metis j takeWhile_dropWhile_id take_append diff_is_0_eq take_0 append_Nil2)
  then have "set (take j s) \<subseteq> set (takeWhile P s)"
    by (metis set_take_subset)
  then show ?thesis by (auto dest: set_takeWhileD)
qed

lemma re_match_Many:
  assumes "re_match (Many a lo cap # r) s = Some (gs, rest)"
  shows "\<exists>t u gs'. s = t @ u \<and> lo \<le> length t \<and> (\<forall>c \<in> set t. accepts a c)
           \<and> re_match r u = Some (gs', rest) \<and> gs = (if cap then t # gs' else gs')"
proof -
  from assms have "backtrack a lo cap r s (length (takeWhile (accepts a) s)) = Some (gs, rest)"
    by simp
  from backtrack_Some [OF this] obtain j gs' where
    j: "j \<le> length (takeWhile (accepts a) s)" "lo \<le> j"
    and m: "re_match r (drop j s) = Some (gs', rest)"
    and g: "gs = (if cap then take j s # gs' else gs')" by blast
  have len: "length (take j s) = j"
    using j(1) length_takeWhile_le [of "accepts a" s] by simp
  have "s = take j s @ drop j s" by simp
  moreover have "lo \<le> length (take j s)" using len j(2) by simp
  moreover have "\<forall>c \<in> set (take j s). accepts a c"
    using take_takeWhile_accepted [OF j(1)] .
  ultimately show ?thesis using m g by blast
qed

lemma bracketed_match:
  assumes \<open>re_match (fst bracketed_rule) s = Some (gs, rest)\<close>
  shows \<open>\<exists>cat ws msg. s = ''print("['' @ cat @ '']'' @ ws @ msg @ ''")'' @ rest
           \<and> gs = [cat, msg] \<and> cat \<noteq> [] \<and> CHR '']'' \<notin> set cat
           \<and> (\<forall>c \<in> set ws. is_space c) \<and> msg \<noteq> [] \<and> CHR 0x22 \<notin> set msg\<close>
proof -
  let ?r1 = \<open>Many (Not CHR '']'') 1 True # (lit '']'' @ Many Space 0 False # Many (Not CHR 0x22) 1 True # (lit ''")'' @ []))\<close>
  have eq: \<open>fst bracketed_rule = lit ''print("['' @ ?r1\<close>
    by (simp add: bracketed_rule_def)
  from assms obtain s1 where s1: \<open>s = ''print("['' @ s1\<close> \<open>re_match ?r1 s1 = Some (gs, rest)\<close>
    unfolding eq re_match_lit by blast
  from re_match_Many [OF s1(2)] obtain cat s2 g2 where
    c: "s1 = cat @ s2" "1 \<le> length cat" \<open>\<forall>c \<in> set cat. accepts (Not CHR '']'') c\<close>
    and m2: \<open>re_match (lit '']'' @ Many Space 0 False # Many (Not CHR 0x22) 1 True # (lit ''")'' @ [])) s2 = Some (g2, rest)\<close>
    and g: "gs = cat # g2" by auto
  from m2 obtain s3 where s3: \<open>s2 = '']'' @ s3\<close>
    \<open>re_match (Many Space 0 False # Many (Not CHR 0x22) 1 True # (lit ''")'' @ [])) s3 = Some (g2, rest)\<close>
    unfolding re_match_lit by blast
  from re_match_Many [OF s3(2)] obtain ws s4 where
    w: "s3 = ws @ s4" \<open>\<forall>c \<in> set ws. accepts Space c\<close>
    and m4: \<open>re_match (Many (Not CHR 0x22) 1 True # (lit ''")'' @ [])) s4 = Some (g2, rest)\<close>
    by auto
  from re_match_Many [OF m4] obtain msg s5 g5 where
    m: "s4 = msg @ s5" "1 \<le> length msg" \<open>\<forall>c \<in> set msg. accepts (Not CHR 0x22) c\<close>
    and m5: \<open>re_match (lit ''")'' @ []) s5 = Some (g5, rest)\<close>
    and g2: "g2 = msg # g5" by auto
  from m5 have s5: \<open>s5 = ''")'' @ rest\<close> "g5 = []"
    unfolding re_match_lit by auto
  have \<open>s = ''print("['' @ cat @ '']'' @ ws @ msg @ ''")'' @ rest\<close>
    using s1(1) c(1) s3(1) w(1) m(1) s5(1) by simp
  moreover have "gs = [cat, msg]" using g g2 s5(2) by simp
  moreover have "cat \<noteq> []" "msg \<noteq> []" using c(2) m(2) by auto
  moreover have \<open>CHR '']'' \<notin> set cat\<close> \<open>CHR 0x22 \<notin> set msg\<close> using c(3) m(3) by auto
  moreover have "\<forall>c \<in> set ws. is_space c" using w(2) by simp
  ultimately show ?thesis by blast
qed

lemma plain_match:
  assumes \<open>re_match (fst plain_rule) s = Some (gs, rest)\<close>
  shows \<open>\<exists>msg. s = ''print("'' @ msg @ ''")'' @ rest \<and> gs = [msg]
           \<and> msg \<noteq> [] \<and> CHR 0x22 \<notin> set msg\<close>
proof -
  let ?r1 = \<open>Many (Not CHR 0x22) 1 True # (lit ''")'' @ [])\<close>
  have eq: \<open>fst plain_rule = lit ''print("'' @ ?r1\<close>
    by (simp add: plain_rule_def)
  from assms obtain s1 where s1: \<open>s = ''print("'' @ s1\<close> \<open>re_match ?r1 s1 = Some (gs, rest)\<close>
    unfolding eq re_match_lit by blast
  from re_match_Many [OF s1(2)] obtain msg s2 g2 where
    m: "s1 = msg @ s2" "1 \<le> length msg" \<open>\<forall>c \<in> set msg. accepts (Not CHR 0x22) c\<close>
    and m2: \<open>re_match (lit ''")'' @ []) s2 = Some (g2, rest)\<close>
    and g: "gs = msg # g2" by auto
  from m2 have s2: \<open>s2 = ''")'' @ rest\<close> "g2 = []"
    unfolding re_match_lit by auto
  have \<open>s = ''print("'' @ msg @ ''")'' @ rest\<close> using s1(1) m(1) s2(1) by simp
  moreover have "gs = [msg]" using g s2(2) by simp
  moreover have "msg \<noteq> []" using m(2) by auto
  moreover have \<open>CHR 0x22 \<notin> set msg\<close> using m(3) by auto
  ultimately show ?thesis by blast
qed

lemma argument_match:
  assumes \<open>re_match (fst argument_rule) s = Some (gs, rest)\<close>
  shows \<open>\<exists>msg ws arg. s = ''print("'' @ msg @ ''",'' @ ws @ arg @ '')'' @ rest
           \<and> gs = [msg, arg] \<and> msg \<noteq> [] \<and> CHR 0x22 \<notin> set msg
           \<and> (\<forall>c \<in> set ws. is_space c) \<and> arg \<noteq> [] \<and> CHR '')'' \<notin> set arg\<close>
proof -
  let ?r1 = \<open>Many (Not CHR 0x22) 1 True
              # (lit ''",'' @ Many Space 0 False # Many (Not CHR '')'') 1 True # (lit '')'' @ []))\<close>
  have eq: \<open>fst argument_rule = lit ''print("'' @ ?r1\<close>
    by (simp add: argument_rule_def)
  from assms obtain s1 where s1: \<open>s = ''print("'' @ s1\<close> \<open>re_match ?r1 s1 = Some (gs, rest)\<close>
    unfolding eq re_match_lit by blast
  from re_match_Many [OF s1(2)] obtain msg s2 g2 where
    m: "s1 = msg @ s2" "1 \<le> length msg" \<open>\<forall>c \<in> set msg. accepts (Not CHR 0x22) c\<close>
    and m2: \<open>re_match (lit ''",'' @ Many Space 0 False # Many (Not CHR '')'') 1 True # (lit '')'' @ []))
               s2 = Some (g2, rest)\<close>
    and g: "gs = msg # g2" by auto
  from m2 obtain s3 where s3: \<open>s2 = ''",'' @ s3\<close>
    \<open>re_match (Many Space 0 False # Many (Not CHR '')'') 1 True # (lit '')'' @ [])) s3 = Some (g2, rest)\<close>
    unfolding re_match_lit by blast
  from re_match_Many [OF s3(2)] obtain ws s4 where
    w: "s3 = ws @ s4" \<open>\<forall>c \<in> set ws. accepts Space c\<close>
    and m4: \<open>re_match (Many (Not CHR '')'') 1 True # (lit '')'' @ [])) s4 = Some (g2, rest)\<close>
    by auto
  from re_match_Many [OF m4] obtain arg s5 g5 where
    a: "s4 = arg @ s5" "1 \<le> length arg" \<open>\<forall>c \<in> set arg. accepts (Not CHR '')'') c\<close>
    and m5: \<open>re_match (lit '')'' @ []) s5 = Some (g5, rest)\<close>
    and g2: "g2 = arg # g5" by auto
  from m5 have s5: \<open>s5 = '')'' @ rest\<close> "g5 = []"
    unfolding re_match_lit by auto
  have \<open>s = ''print("'' @ msg @ ''",'' @ ws @ arg @ '')'' @ rest\<close>
    using s1(1) m(1) s3(1) w(1) a(1) s5(1) by simp
  moreover have "gs = [msg, arg]" using g g2 s5(2) by simp
  moreover have "msg \<noteq> []" "arg \<noteq> []" using m(2) a(2) by auto
  moreover have \<open>CHR 0x22 \<notin> set msg\<close> \<open>CHR '')'' \<notin> set arg\<close> using m(3) a(3) by auto
  moreover have "\<forall>c \<in> set ws. is_space c" using w(2) by simp
  ultimately show ?thesis by blast
qed

text \<open>
  Every match of a rule binds as many groups as the rule's template refers to: two for the
  bracketed-tag rule, one for the plain-message rule, two for the message-plus-argument rule.
\<close>

lemma templates_refer_to_groups:
  \<open>re_match (fst bracketed_rule) s = Some (gs, rest) \<Longrightarrow> length gs = 2\<close>
  \<open>re_match (fst plain_rule) s = Some (gs, rest) \<Longrightarrow> length gs = 1\<close>
  \<open>re_match (fst argument_rule) s = Some (gs, rest) \<Longrightarrow> length gs = 2\<close>
  using bracketed_match [of s gs rest] plain_match [of s gs rest] argument_match [of s gs rest]
  by auto




lemma re_sub_no_match: "\<not> matches_in p s \<Longrightarrow> re_sub p repl s = s"
proof (induction s)
  case Nil
  then show ?case by (subst re_sub.simps) (auto split: option.splits)
next
  case (Cons c cs)
  then have "re_sub p repl cs = cs" by simp
  with Cons.prems show ?case by (subst re_sub.simps) (auto split: option.splits)
qed


lemma rewrite_no_match:
  assumes "\<not> matches_in (fst bracketed_rule) content"
    and "\<not> matches_in (fst plain_rule) content"
    and "\<not> matches_in (fst argument_rule) content"
  shows "rewrite content = content"
  using assms
  by (simp add: rewrite_def patterns_def case_prod_beta re_sub_no_match)



section \<open>Properties of the file system and of the loop\<close>

lemma map_of_map_entry:
  "map_of (map (\<lambda>(name, n). if name = y then (name, f n) else (name, n)) es) x
     = map_option (\<lambda>n. if x = y then f n else n) (map_of es x)"
  by (induction es) auto


lemma is_dir_store: "is_dir (store n q c) = is_dir n"
  by (cases n; cases q) auto


lemma lookup_store_same:
  "lookup n p = Some (File raw) \<Longrightarrow> lookup (store n p c) p = Some (File c)"
proof (induction p arbitrary: n)
  case Nil
  then show ?case by simp
next
  case (Cons x xs)
  then show ?case
  proof (cases n)
    case (File old)
    with Cons.prems show ?thesis by simp
  next
    case (Dir es)
    with Cons.prems obtain m where m: "map_of es x = Some m" "lookup m xs = Some (File raw)"
      by (auto split: option.splits)
    with Dir Cons.IH [OF m(2)] show ?thesis by (simp add: map_of_map_entry)
  qed
qed

lemma replace_print_statements_file:
  assumes "lookup (disk s) p = Some (File raw)"
  shows "replace_print_statements p s =
     (let original_content = universal_newlines raw;
          content = rewrite original_content;
          s1 = s\<lparr>trace := trace s @ [Opened_for_reading p]\<rparr>
      in if content \<noteq> original_content then (Inr True, write_text p content s1)
         else (Inr False, s1))"
  using assms by (simp add: replace_print_statements_def read_text_def Let_def)






lemma file_below_File: "\<not> file_below (File c) rel"
  by (cases rel) auto

lemma walk_collect:
  "p \<in> set (concat (map (\<lambda>(root, dirs, files). map (\<lambda>file. root @ [file]) (filter P files))
                      (os_walk root n)))
   \<longleftrightarrow> (\<exists>rel. p = root @ rel \<and> file_below n rel \<and> P (last rel))"
proof (induction root n arbitrary: p rule: os_walk.induct)
  case (1 root c)
  show ?case by (simp add: file_below_File)
next
  case (2 root es)
  let ?W = "\<lambda>root n. concat (map (\<lambda>(root, dirs, files). map (\<lambda>file. root @ [file]) (filter P files))
                      (os_walk root n))"
  have IH: "p \<in> set (?W (root @ [name]) n)
      \<longleftrightarrow> (\<exists>rel. p = (root @ [name]) @ rel \<and> file_below n rel \<and> P (last rel))"
    if "(name, n) \<in> set es" "is_dir n" for name n p
    using "2.IH" [of "(name, n)" name n p] that by simp
  have L: "p \<in> set (?W root (Dir es))
     \<longleftrightarrow> (\<exists>f n. (f, n) \<in> set es \<and> \<not> is_dir n \<and> P f \<and> p = root @ [f])
       \<or> (\<exists>name n. (name, n) \<in> set es \<and> is_dir n \<and> p \<in> set (?W (root @ [name]) n))"
    by (auto simp: image_iff) force+
  show ?case (is "?L \<longleftrightarrow> ?R")
  proof
    assume ?L
    with L consider (is_file) f n where "(f, n) \<in> set es" "\<not> is_dir n" "P f" "p = root @ [f]"
      | (in_dir) name n where "(name, n) \<in> set es" "is_dir n" "p \<in> set (?W (root @ [name]) n)"
      by blast
    then show ?R
    proof cases
      case is_file
      then have "file_below (Dir es) [f]" by force
      with is_file show ?thesis by force
    next
      case in_dir
      with IH obtain rel where rel: "p = (root @ [name]) @ rel" "file_below n rel" "P (last rel)"
        by blast
      then obtain y ys where ys: "rel = y # ys" by (cases rel) auto
      with in_dir rel have "file_below (Dir es) (name # y # ys)" by force
      moreover have "p = root @ (name # y # ys)" using rel(1) ys by simp
      moreover have "P (last (name # y # ys))" using rel(3) ys by simp
      ultimately show ?thesis by blast
    qed
  next
    assume ?R
    then obtain rel where rel: "p = root @ rel" "file_below (Dir es) rel" "P (last rel)" by blast
    show ?L
    proof (cases rel)
      case Nil
      with rel show ?thesis by simp
    next
      case (Cons x xs)
      show ?thesis
      proof (cases xs)
        case Nil
        with Cons rel obtain e where "e \<in> set es" "fst e = x" "\<not> is_dir (snd e)" by auto
        then have "(x, snd e) \<in> set es \<and> \<not> is_dir (snd e) \<and> P x \<and> p = root @ [x]"
          using rel Cons Nil by (cases e) auto
        with L show ?thesis by blast
      next
        case (Cons y ys)
        with \<open>rel = x # xs\<close> rel obtain e where
          e: "e \<in> set es" "fst e = x" "is_dir (snd e)" "file_below (snd e) (y # ys)" by auto
        then have in_es: "(x, snd e) \<in> set es" by (cases e) auto
        have "p = (root @ [x]) @ (y # ys) \<and> file_below (snd e) (y # ys) \<and> P (last (y # ys))"
          using rel \<open>rel = x # xs\<close> Cons e by simp
        with IH [OF in_es e(3)] have "p \<in> set (?W (root @ [x]) (snd e))" by blast
        with L in_es e(3) show ?thesis by blast
      qed
    qed
  qed
qed

lemma find_swift_files_iff:
  "p \<in> set (find_swift_files s directory)
   \<longleftrightarrow> (\<exists>n rel. lookup (disk s) directory = Some n \<and> p = directory @ rel
          \<and> file_below n rel \<and> endswith (last rel) ''.swift'')"
proof (cases "lookup (disk s) directory")
  case None
  then show ?thesis by (simp add: find_swift_files_def)
next
  case (Some n)
  then have eq: "find_swift_files s directory =
      concat (map (\<lambda>(root, dirs, files).
                     map (\<lambda>file. root @ [file]) (filter (\<lambda>file. endswith file ''.swift'') files))
                  (os_walk directory n))"
    by (simp add: find_swift_files_def)
  show ?thesis unfolding eq walk_collect using Some by simp
qed


lemma str_0: "str 0 = ''0''"
  by code_simp

lemma main_no_files:
  assumes "length argv = 2" and "os_path_exists s [argv ! 1]"
    and "find_swift_files s [argv ! 1] = []"
  shows "main argv s =
     (Inr (), s\<lparr>stdout := stdout s @
        [''Found 0 Swift files'', CHR 0x0A # ''Modified 0 files'',
         ''Note: You may need to manually review and adjust Logger categories'']\<rparr>)"
  using assms by (simp add: main_def Let_def py_print_def str_0)


section \<open>Properties of the rewriter\<close>

text \<open>
  C5: for the content \<^verbatim>\<open>print("Hello world")\<close> the rewriter yields the structured-log
  call with the message \<^verbatim>\<open>Hello world\<close>, the category \<^verbatim>\<open>.general\<close> and the level
  \<^verbatim>\<open>.info\<close>.
\<close>

theorem plain_message_example:
  \<open>rewrite ''print("Hello world")''
     = ''Logger.shared.log("Hello world", category: .general, level: .info)''\<close>
  by code_simp

text \<open>
  C6: for the content \<^verbatim>\<open>print("Value is", x)\<close> the rewriter yields the structured-log
  call whose message is \<^verbatim>\<open>Value is: x\<close> (the message, the separator \<^verbatim>\<open>: \<close> and the
  source text of the argument), with the category \<^verbatim>\<open>.general\<close> and the level \<^verbatim>\<open>.info\<close>.
\<close>

theorem message_with_argument_example:
  \<open>rewrite ''print("Value is", x)''
     = ''Logger.shared.log("Value is: x", category: .general, level: .info)''\<close>
  by code_simp

text \<open>
  C7: the rewriter's pass is the sequential composition of the three substitutions in the
  listed order: the bracketed-tag rule, then the plain-message rule on its output, then the
  message-plus-argument rule on the output of that; each is applied once to the whole content.
\<close>

theorem rewrite_is_rules_in_listed_order:
  "rewrite content = rules_in_listed_order content"
  by (simp add: rewrite_def rules_in_listed_order_def apply_rule_def patterns_def
      case_prod_beta)










section \<open>Properties of the script\<close>

text \<open>
  C3: for a file that replace\_print\_statements processes, the file is opened for writing
  if and only if the rewritten content differs from the content read, and the function
  returns \<open>True\<close> exactly in that case; the text written is the rewritten content.  In
  particular, when none of the three patterns matches anywhere in the content, the function
  returns \<open>False\<close> and the tree on disk is what it was.
\<close>

theorem written_back_iff_changed:
  assumes "lookup (disk s) file_path = Some (File raw)"
  shows "\<exists>changed s'.
     replace_print_statements file_path s = (Inr changed, s')
     \<and> changed = (rewrite (universal_newlines raw) \<noteq> universal_newlines raw)
     \<and> trace s' = trace s @ Opened_for_reading file_path
           # (if changed then [Opened_for_writing file_path (rewrite (universal_newlines raw))]
              else [])
     \<and> disk s' = (if changed then store (disk s) file_path (rewrite (universal_newlines raw))
                  else disk s)
     \<and> (changed \<longrightarrow> lookup (disk s') file_path = Some (File (rewrite (universal_newlines raw))))
     \<and> (\<not> matches_in (fst bracketed_rule) (universal_newlines raw)
          \<and> \<not> matches_in (fst plain_rule) (universal_newlines raw)
          \<and> \<not> matches_in (fst argument_rule) (universal_newlines raw)
        \<longrightarrow> \<not> changed \<and> disk s' = disk s)"
proof (cases "rewrite (universal_newlines raw) = universal_newlines raw")
  case True
  then show ?thesis
    using replace_print_statements_file [OF assms] by (auto simp add: Let_def)
next
  case False
  have "\<not> (\<not> matches_in (fst bracketed_rule) (universal_newlines raw)
          \<and> \<not> matches_in (fst plain_rule) (universal_newlines raw)
          \<and> \<not> matches_in (fst argument_rule) (universal_newlines raw))"
    using False rewrite_no_match by blast
  then show ?thesis
    using False replace_print_statements_file [OF assms] lookup_store_same [OF assms]
    by (auto simp add: Let_def write_text_def)
qed

theorem written_back_iff_changed_witness:
  \<open>lookup (disk example_state) [''proj'', ''a.swift''] = Some (File ''print("Hello world")'')
   \<and> (\<exists>s'. replace_print_statements [''proj'', ''a.swift''] example_state = (Inr True, s')
         \<and> lookup (disk s') [''proj'', ''a.swift'']
             = Some (File ''Logger.shared.log("Hello world", category: .general, level: .info)''))
   \<and> lookup (disk example_state) [''proj'', ''sub'', ''b.swift''] = Some (File ''let x = 1'')
   \<and> \<not> matches_in (fst bracketed_rule) (universal_newlines ''let x = 1'')
   \<and> \<not> matches_in (fst plain_rule) (universal_newlines ''let x = 1'')
   \<and> \<not> matches_in (fst argument_rule) (universal_newlines ''let x = 1'')
   \<and> (\<exists>s'. replace_print_statements [''proj'', ''sub'', ''b.swift''] example_state = (Inr False, s')
         \<and> disk s' = disk example_state)\<close>
proof -
  have a: \<open>lookup (disk example_state) [''proj'', ''a.swift''] = Some (File ''print("Hello world")'')\<close>
    by code_simp
  have ra: \<open>rewrite (universal_newlines ''print("Hello world")'')
      = ''Logger.shared.log("Hello world", category: .general, level: .info)''\<close>
    by code_simp
  have na: \<open>universal_newlines ''print("Hello world")'' = ''print("Hello world")''\<close>
    by code_simp
  have b: \<open>lookup (disk example_state) [''proj'', ''sub'', ''b.swift''] = Some (File ''let x = 1'')\<close>
    by code_simp
  have mb: \<open>\<not> matches_in (fst bracketed_rule) (universal_newlines ''let x = 1'')\<close>
    \<open>\<not> matches_in (fst plain_rule) (universal_newlines ''let x = 1'')\<close>
    \<open>\<not> matches_in (fst argument_rule) (universal_newlines ''let x = 1'')\<close>
    by code_simp+
  from written_back_iff_changed [OF a] ra na
  have 1: \<open>\<exists>s'. replace_print_statements [''proj'', ''a.swift''] example_state = (Inr True, s')
         \<and> lookup (disk s') [''proj'', ''a.swift'']
             = Some (File ''Logger.shared.log("Hello world", category: .general, level: .info)'')\<close>
    by auto
  from written_back_iff_changed [OF b] mb
  have 2: \<open>\<exists>s'. replace_print_statements [''proj'', ''sub'', ''b.swift''] example_state = (Inr False, s')
         \<and> disk s' = disk example_state\<close>
    by auto
  from a b mb 1 2 show ?thesis by blast
qed

text \<open>
  C4: the scanner returns exactly the files under the root whose name ends in
  \<^verbatim>\<open>.swift\<close>: every path it returns is a file under the root with such a name, and every
  such file, at any depth of sub-directories, is returned.
\<close>

theorem find_swift_files_exact:
  "set (find_swift_files s directory)
     = {p \<in> files_under s directory. endswith (last p) ''.swift''}"
proof (cases "lookup (disk s) directory")
  case None
  then show ?thesis by (simp add: find_swift_files_def files_under_def)
next
  case (Some n)
  have last_rel: "last (directory @ rel) = last rel" if "file_below n rel" for rel
    using that by (cases rel) auto
  show ?thesis
  proof (intro set_eqI iffI)
    fix p assume "p \<in> set (find_swift_files s directory)"
    then obtain rel where "p = directory @ rel" "file_below n rel" "endswith (last rel) ''.swift''"
      unfolding find_swift_files_iff using Some by auto
    then show "p \<in> {p \<in> files_under s directory. endswith (last p) ''.swift''}"
      using Some last_rel by (auto simp: files_under_def)
  next
    fix p assume "p \<in> {p \<in> files_under s directory. endswith (last p) ''.swift''}"
    then obtain rel where "p = directory @ rel" "file_below n rel" "endswith (last p) ''.swift''"
      using Some by (auto simp: files_under_def)
    then show "p \<in> set (find_swift_files s directory)"
      unfolding find_swift_files_iff using Some last_rel by auto
  qed
qed

theorem find_swift_files_exact_witness:
  "[''proj'', ''sub'', ''c.swift''] \<in> files_under example_state [''proj'']
   \<and> [''proj'', ''sub'', ''c.swift''] \<in> set (find_swift_files example_state [''proj''])
   \<and> [''proj'', ''notes.txt''] \<in> files_under example_state [''proj'']
   \<and> [''proj'', ''notes.txt''] \<notin> set (find_swift_files example_state [''proj''])"
proof -
  have n: "lookup (disk example_state) [''proj''] = Some example_project"
    by (simp add: example_state_def)
  have "file_below example_project [''sub'', ''c.swift'']"
    and "file_below example_project [''notes.txt'']"
    by (simp_all add: example_project_def)
  then have c: "[''proj'', ''sub'', ''c.swift''] \<in> files_under example_state [''proj'']"
    and t: "[''proj'', ''notes.txt''] \<in> files_under example_state [''proj'']"
    unfolding files_under_def n by fastforce+
  have ec: "endswith (last [''proj'', ''sub'', ''c.swift'']) ''.swift''"
    and et: "\<not> endswith (last [''proj'', ''notes.txt'']) ''.swift''"
    by (simp_all add: endswith_def)
  show ?thesis
    using c t ec et find_swift_files_exact [of example_state "[''proj'']"] by blast
qed



text \<open>
  C9: on either validation failure, a wrong number of arguments or a path that does not
  exist, \<^verbatim>\<open>main\<close> raises \<open>SystemExit 1\<close> (a non-zero exit status) with the tree on disk
  unchanged and without having opened any file.
\<close>

theorem validation_failure_touches_nothing:
  assumes "length argv \<noteq> 2 \<or> \<not> os_path_exists s [argv ! 1]"
  shows "fst (main argv s) = Inl (SystemExit 1) \<and> exit_status (fst (main argv s)) \<noteq> 0
     \<and> disk (snd (main argv s)) = disk s \<and> trace (snd (main argv s)) = trace s"
  using assms by (auto simp add: main_def py_print_def Let_def)

theorem validation_failure_touches_nothing_witness:
  "length [''replace_prints.py''] \<noteq> 2
   \<and> fst (main [''replace_prints.py''] example_state) = Inl (SystemExit 1)
   \<and> disk (snd (main [''replace_prints.py''] example_state)) = disk example_state
   \<and> trace (snd (main [''replace_prints.py''] example_state)) = trace example_state
   \<and> \<not> os_path_exists example_state [''nope'']
   \<and> fst (main [''replace_prints.py'', ''nope''] example_state) = Inl (SystemExit 1)
   \<and> disk (snd (main [''replace_prints.py'', ''nope''] example_state)) = disk example_state
   \<and> trace (snd (main [''replace_prints.py'', ''nope''] example_state)) = trace example_state"
proof -
  have nope: "\<not> os_path_exists example_state [''nope'']" by code_simp
  have 1: "length [''replace_prints.py''] \<noteq> 2
     \<or> \<not> os_path_exists example_state [[''replace_prints.py''] ! 1]" by simp
  have 2: "length [''replace_prints.py'', ''nope''] \<noteq> 2
     \<or> \<not> os_path_exists example_state [[''replace_prints.py'', ''nope''] ! 1]"
    using nope by simp
  show ?thesis
    using nope validation_failure_touches_nothing [OF 1] validation_failure_touches_nothing [OF 2]
    by simp
qed

text \<open>
  C10: the validation checks that the path exists, not that it is a directory: when the
  argument names an existing file, the validation passes, the scanner finds no file, and
  the run prints zero found and zero modified and returns with exit status 0.
\<close>

theorem existing_file_argument_passes_validation:
  assumes "lookup (disk s) [directory] = Some (File c)"
  shows "os_path_exists s [directory] \<and> find_swift_files s [directory] = []
     \<and> main [prog, directory] s =
         (Inr (), s\<lparr>stdout := stdout s @
            [''Found 0 Swift files'', CHR 0x0A # ''Modified 0 files'',
             ''Note: You may need to manually review and adjust Logger categories'']\<rparr>)
     \<and> exit_status (fst (main [prog, directory] s)) = 0"
proof -
  have e: "os_path_exists s [directory]" using assms by (simp add: os_path_exists_def)
  have f: "find_swift_files s [directory] = []" using assms by (simp add: find_swift_files_def)
  from main_no_files [of "[prog, directory]" s] e f
  have m: "main [prog, directory] s =
         (Inr (), s\<lparr>stdout := stdout s @
            [''Found 0 Swift files'', CHR 0x0A # ''Modified 0 files'',
             ''Note: You may need to manually review and adjust Logger categories'']\<rparr>)"
    by simp
  with e f show ?thesis by simp
qed

theorem existing_file_argument_passes_validation_witness:
  \<open>lookup (disk example_state) [''f.swift''] = Some (File ''print("q")'')
   \<and> os_path_exists example_state [''f.swift'']
   \<and> find_swift_files example_state [''f.swift''] = []
   \<and> main [''replace_prints.py'', ''f.swift''] example_state =
       (Inr (), example_state\<lparr>stdout := stdout example_state @
          [''Found 0 Swift files'', CHR 0x0A # ''Modified 0 files'',
           ''Note: You may need to manually review and adjust Logger categories'']\<rparr>)
   \<and> exit_status (fst (main [''replace_prints.py'', ''f.swift''] example_state)) = 0\<close>
proof -
  have f: \<open>lookup (disk example_state) [''f.swift''] = Some (File ''print("q")'')\<close>
    by (simp add: example_state_def)
  show ?thesis
    using f existing_file_argument_passes_validation [OF f, of "''replace_prints.py''"]
    by simp
qed

end
